theory Spec2Isabelle
  imports Main "HOL-Library.Sublist"
begin

section \<open>Errors\<close>

text \<open>
  Go error values, as the store sees them.  \<open>ErrUserNotFound\<close> and \<open>ErrDuplicateUser\<close>
  are the two package-level sentinels of the store (\<open>errors.New\<close>), \<open>ErrNoRows\<close> is
  \<open>sql.ErrNoRows\<close>, \<open>DriverError m\<close> is any other error coming out of \<open>database/sql\<close> or
  the SQLite driver, with its message \<open>m\<close>, and \<open>Wrapf p e\<close> is
  \<open>fmt.Errorf(p + "%w", e)\<close>.
\<close>

datatype go_error =
    ErrUserNotFound
  | ErrDuplicateUser
  | ErrNoRows
  | DriverError string
  | Wrapf string go_error

text \<open>The method \<open>err.Error()\<close>.\<close>

fun Error :: "go_error \<Rightarrow> string" where
  "Error ErrUserNotFound = ''User not found''"
| "Error ErrDuplicateUser = ''User already exists''"
| "Error ErrNoRows = ''sql: no rows in result set''"
| "Error (DriverError m) = m"
| "Error (Wrapf p e) = p @ Error e"

text \<open>\<open>strings.Contains s substr\<close>: \<open>substr\<close> occurs in \<open>s\<close> as a contiguous block.\<close>

fun Contains :: "string \<Rightarrow> string \<Rightarrow> bool" where
  "Contains [] substr = (substr = [])"
| "Contains (c # s) substr = (prefix substr (c # s) \<or> Contains s substr)"

text \<open>
  The error taxonomy of the contract: a caller that compares the returned error with
  the two sentinels sees one of three classes.
\<close>

datatype error_class = NotFoundError | DuplicateError | StorageError

fun classify :: "go_error \<Rightarrow> error_class" where
  "classify ErrUserNotFound = NotFoundError"
| "classify ErrDuplicateUser = DuplicateError"
| "classify ErrNoRows = StorageError"
| "classify (DriverError m) = StorageError"
| "classify (Wrapf p e) = StorageError"

section \<open>Data model\<close>

text \<open>
  A timestamp is a \<open>time.Time\<close> at the resolution of seconds, counted as Go counts
  them internally: from January 1 of year 1, 00:00:00 UTC.  \<open>IsZero\<close> is the test
  \<open>t.IsZero()\<close>.
\<close>

type_synonym timestamp = nat

definition IsZero :: "timestamp \<Rightarrow> bool" where
  "IsZero t = (t = 0)"

text \<open>
  Modelled from the spec: the declaration of the struct \<open>User\<close> (file \<open>model.go\<close>) is
  not among the sources.  Its four fields are the ones the store scans into and the
  tests and the shell read: \<open>ID\<close> (an \<open>int64\<close>), \<open>Username\<close>, \<open>Email\<close> and \<open>CreatedAt\<close>.
\<close>

record User =
  ID :: int
  Username :: string
  Email :: string
  CreatedAt :: timestamp

section \<open>The environment of a call\<close>

text \<open>
  Every operation of the store makes a few calls into \<open>database/sql\<close>.  Each of them
  can fail for reasons outside the table (I/O, a lock, a context that fires midway);
  \<open>fault\<close> says, per call, whether it does and with which message.  \<open>ctx_done\<close> says
  that the context handed to the operation is already cancelled when the operation
  starts, and \<open>clock\<close> is the engine's clock, in seconds since the Unix epoch.
\<close>

datatype call =
    CallBegin | CallExec | CallLastInsertId | CallCommit
  | CallQuery | CallScan | CallRowsErr | CallRowsAffected | CallClose

record env =
  ctx_done :: bool
  clock :: nat
  fault :: "call \<Rightarrow> string option"

definition healthy :: "env \<Rightarrow> bool" where
  "healthy e = (\<not> ctx_done e \<and> (\<forall>c. fault e c = None))"

text \<open>
  \<open>CURRENT_TIMESTAMP\<close>, read back as a \<open>time.Time\<close>: the Unix time shifted by the
  number of seconds between year 1 and 1970 (Go's \<open>unixToInternal\<close>).
\<close>

definition unixToInternal :: nat where
  "unixToInternal = 62135596800"

definition CURRENT_TIMESTAMP :: "env \<Rightarrow> timestamp" where
  "CURRENT_TIMESTAMP e = unixToInternal + clock e"

section \<open>The database behind the handle\<close>

text \<open>
  The store talks to SQLite through \<open>database/sql\<close>; neither is code of the repository.
  This section writes down what the store's calls do there, as far as the store can
  observe it: the handle's life cycle, the three statements the store sends against the
  schema of \<open>migrate\<close>, and transactions.  Calls are taken one at a time.
\<close>

text \<open>
  The struct \<open>sqlStore\<close> has one field, the handle \<open>db\<close>; the model identifies the store
  with what that handle stands for: whether \<open>Close\<close> has been called, the rows of the
  table \<open>users\<close> that \<open>migrate\<close> creates (in rowid order), and the row that table has in
  \<open>sqlite_sequence\<close> (\<open>AUTOINCREMENT\<close>): the largest id ever given out.
\<close>

record DB =
  closed :: bool
  users :: "User list"
  seq :: int

type_synonym sqlStore = DB

text \<open>The largest value of an \<open>INTEGER PRIMARY KEY\<close>: the largest \<open>int64\<close>.\<close>

definition MAX_ROWID :: int where
  "MAX_ROWID = 2 ^ 63 - 1"

text \<open>
  \<open>NewDb\<close> on a path that holds no database yet (the \<open>:memory:\<close> of the tests): the
  handle is open and \<open>migrate\<close> has created an empty table.
\<close>

definition NewDb :: sqlStore where
  "NewDb = \<lparr>closed = False, users = [], seq = 0\<rparr>"

text \<open>What \<open>Exec\<close> hands back: \<open>sql.Result\<close>, with its two readings.\<close>

record Result =
  last_insert_id :: int
  rows_affected :: int

text \<open>
  The start of every call on the handle: a closed handle refuses
  (\<open>sql: database is closed\<close>), then a cancelled context does, then the fault of this
  call, if any, strikes.
\<close>

definition conn :: "env \<Rightarrow> DB \<Rightarrow> call \<Rightarrow> go_error option" where
  "conn e d c =
     (if closed d then Some (DriverError ''sql: database is closed'')
      else if ctx_done e then Some (DriverError ''context canceled'')
      else map_option DriverError (fault e c))"

subsection \<open>The three statements\<close>

text \<open>
  \<open>INSERT INTO users (username, email) VALUES (?, ?)\<close>.  The new rowid is one more
  than \<open>top_rowid\<close>, the largest of the rowids in the table and the recorded sequence
  value; when that is already \<open>MAX_ROWID\<close> the engine gives up (\<open>SQLITE_FULL\<close>).  Then
  the two \<open>UNIQUE\<close> columns are checked (which of the two is named in the message when
  both collide is of no consequence below).  \<open>created_at\<close> takes its default.
\<close>

definition top_rowid :: "DB \<Rightarrow> int" where
  "top_rowid d = fold max (map ID (users d)) (seq d)"

definition new_row :: "env \<Rightarrow> DB \<Rightarrow> string \<Rightarrow> string \<Rightarrow> User" where
  "new_row e d un em =
     \<lparr>ID = top_rowid d + 1, Username = un, Email = em, CreatedAt = CURRENT_TIMESTAMP e\<rparr>"

definition sql_insert :: "env \<Rightarrow> DB \<Rightarrow> string \<Rightarrow> string \<Rightarrow> go_error + (DB \<times> Result)" where
  "sql_insert e d un em =
     (if MAX_ROWID \<le> top_rowid d then Inl (DriverError ''database or disk is full'')
      else if list_ex (\<lambda>r. Username r = un) (users d)
        then Inl (DriverError ''UNIQUE constraint failed: users.username'')
      else if list_ex (\<lambda>r. Email r = em) (users d)
        then Inl (DriverError ''UNIQUE constraint failed: users.email'')
      else Inr (d\<lparr>users := users d @ [new_row e d un em], seq := top_rowid d + 1\<rparr>,
                \<lparr>last_insert_id = top_rowid d + 1, rows_affected = 1\<rparr>))"

text \<open>
  \<open>UPDATE users SET username = ?, email = ? WHERE id = ?\<close>.  With no row of that id
  nothing is checked and nothing changes.  Otherwise the new values must not be
  those of another row.  The result's \<open>last_insert_id\<close> is not read by the store.
\<close>

definition overwrite :: "int \<Rightarrow> string \<Rightarrow> string \<Rightarrow> User \<Rightarrow> User" where
  "overwrite i un em r = (if ID r = i then r\<lparr>Username := un, Email := em\<rparr> else r)"

definition sql_update :: "DB \<Rightarrow> string \<Rightarrow> string \<Rightarrow> int \<Rightarrow> go_error + (DB \<times> Result)" where
  "sql_update d un em i =
     (let hit = filter (\<lambda>r. ID r = i) (users d) in
      if hit = [] then Inr (d, \<lparr>last_insert_id = 0, rows_affected = 0\<rparr>)
      else if list_ex (\<lambda>r. ID r \<noteq> i \<and> Username r = un) (users d)
        then Inl (DriverError ''UNIQUE constraint failed: users.username'')
      else if list_ex (\<lambda>r. ID r \<noteq> i \<and> Email r = em) (users d)
        then Inl (DriverError ''UNIQUE constraint failed: users.email'')
      else Inr (d\<lparr>users := map (overwrite i un em) (users d)\<rparr>,
                \<lparr>last_insert_id = 0, rows_affected = int (length hit)\<rparr>))"

text \<open>\<open>DELETE FROM users WHERE id = ?\<close>.  The sequence value stays: ids are not reused.\<close>

definition sql_delete :: "DB \<Rightarrow> int \<Rightarrow> DB \<times> Result" where
  "sql_delete d i =
     (d\<lparr>users := filter (\<lambda>r. ID r \<noteq> i) (users d)\<rparr>,
      \<lparr>last_insert_id = 0,
       rows_affected = int (length (filter (\<lambda>r. ID r = i) (users d)))\<rparr>)"

subsection \<open>Calls on the handle\<close>

definition ExecUpdate :: "env \<Rightarrow> DB \<Rightarrow> string \<Rightarrow> string \<Rightarrow> int \<Rightarrow> go_error + (DB \<times> Result)" where
  "ExecUpdate e d un em i =
     (case conn e d CallExec of
        Some err \<Rightarrow> Inl err
      | None \<Rightarrow> sql_update d un em i)"

definition ExecDelete :: "env \<Rightarrow> DB \<Rightarrow> int \<Rightarrow> go_error + (DB \<times> Result)" where
  "ExecDelete e d i =
     (case conn e d CallExec of
        Some err \<Rightarrow> Inl err
      | None \<Rightarrow> Inr (sql_delete d i))"

definition LastInsertId :: "env \<Rightarrow> Result \<Rightarrow> go_error + int" where
  "LastInsertId e res =
     (case fault e CallLastInsertId of
        Some m \<Rightarrow> Inl (DriverError m)
      | None \<Rightarrow> Inr (last_insert_id res))"

definition RowsAffected :: "env \<Rightarrow> Result \<Rightarrow> go_error + int" where
  "RowsAffected e res =
     (case fault e CallRowsAffected of
        Some m \<Rightarrow> Inl (DriverError m)
      | None \<Rightarrow> Inr (rows_affected res))"

text \<open>\<open>row.Scan\<close> and \<open>rows.Scan\<close>: the four columns go into the four fields.\<close>

definition Scan :: "env \<Rightarrow> User \<Rightarrow> go_error + User" where
  "Scan e r =
     (case fault e CallScan of
        Some m \<Rightarrow> Inl (DriverError m)
      | None \<Rightarrow> Inr \<lparr>ID = ID r, Username = Username r, Email = Email r,
                     CreatedAt = CreatedAt r\<rparr>)"

text \<open>
  \<open>QueryRowContext(...).Scan(...)\<close> for \<open>SELECT ... WHERE id = ?\<close>: the error of the
  query, else \<open>sql.ErrNoRows\<close> when the result is empty, else the scan of its first row.
\<close>

definition QueryRowScan :: "env \<Rightarrow> DB \<Rightarrow> int \<Rightarrow> go_error + User" where
  "QueryRowScan e d i =
     (case conn e d CallQuery of
        Some err \<Rightarrow> Inl err
      | None \<Rightarrow>
         (case filter (\<lambda>r. ID r = i) (users d) of
            [] \<Rightarrow> Inl ErrNoRows
          | r # _ \<Rightarrow> Scan e r))"

text \<open>\<open>QueryContext\<close> for \<open>SELECT ... FROM users\<close>: a cursor over all rows.\<close>

definition QueryContext :: "env \<Rightarrow> DB \<Rightarrow> go_error + User list" where
  "QueryContext e d =
     (case conn e d CallQuery of
        Some err \<Rightarrow> Inl err
      | None \<Rightarrow> Inr (users d))"

subsection \<open>Transactions\<close>

text \<open>
  A transaction holds the committed database (\<open>base\<close>), its own view of it (\<open>work\<close>) and
  whether it is over (\<open>finished\<close>).  \<open>Commit\<close> makes the view the committed database;
  when it fails, the driver rolls back.  \<open>Rollback\<close> on a transaction that is over does
  nothing (\<open>sql.ErrTxDone\<close>), else it drops the view.
\<close>

record Tx =
  base :: DB
  work :: DB
  finished :: bool

definition BeginTx :: "env \<Rightarrow> DB \<Rightarrow> go_error + Tx" where
  "BeginTx e d =
     (case conn e d CallBegin of
        Some err \<Rightarrow> Inl err
      | None \<Rightarrow> Inr \<lparr>base = d, work = d, finished = False\<rparr>)"

definition ExecInsert :: "env \<Rightarrow> Tx \<Rightarrow> string \<Rightarrow> string \<Rightarrow> go_error + (Tx \<times> Result)" where
  "ExecInsert e tx un em =
     (case conn e (work tx) CallExec of
        Some err \<Rightarrow> Inl err
      | None \<Rightarrow>
         (case sql_insert e (work tx) un em of
            Inl err \<Rightarrow> Inl err
          | Inr (d, res) \<Rightarrow> Inr (tx\<lparr>work := d\<rparr>, res)))"

definition Commit :: "env \<Rightarrow> Tx \<Rightarrow> go_error option \<times> Tx" where
  "Commit e tx =
     (case fault e CallCommit of
        Some m \<Rightarrow> (Some (DriverError m), tx\<lparr>work := base tx, finished := True\<rparr>)
      | None \<Rightarrow> (None, tx\<lparr>base := work tx, finished := True\<rparr>))"

definition Rollback :: "Tx \<Rightarrow> Tx" where
  "Rollback tx = (if finished tx then tx else tx\<lparr>work := base tx, finished := True\<rparr>)"

section \<open>The store\<close>

text \<open>
  Each operation takes the environment of the call (with the context) and the store, and
  returns the store after it.  \<open>Create\<close> also returns the caller's record, which it writes
  to through the pointer.  The deferred \<open>tx.Rollback()\<close> runs at every return after
  \<open>BeginTx\<close> has succeeded; the store after the call is the committed database then.
\<close>

definition Close :: "env \<Rightarrow> sqlStore \<Rightarrow> go_error option \<times> sqlStore" where
  "Close e s =
     (if closed s then (None, s)
      else (map_option DriverError (fault e CallClose), s\<lparr>closed := True\<rparr>))"

definition Create :: "env \<Rightarrow> sqlStore \<Rightarrow> User \<Rightarrow> go_error option \<times> User \<times> sqlStore" where
  "Create e s user =
     (case BeginTx e s of
        Inl err \<Rightarrow> (Some (Wrapf ''Failed to begin transctions : '' err), user, s)
      | Inr tx \<Rightarrow>
         (case ExecInsert e tx (Username user) (Email user) of
            Inl err \<Rightarrow>
              if Contains (Error err) ''UNIQUE constraint failed''
              then (Some ErrDuplicateUser, user, base (Rollback tx))
              else (Some (Wrapf ''failed to insert user: '' err), user, base (Rollback tx))
          | Inr (tx1, result) \<Rightarrow>
             (case LastInsertId e result of
                Inl err \<Rightarrow>
                  (Some (Wrapf ''failed to get the last insert id : '' err), user,
                   base (Rollback tx1))
              | Inr i \<Rightarrow>
                 (let user1 = user\<lparr>ID := i\<rparr> in
                  case Commit e tx1 of
                    (Some err, tx2) \<Rightarrow>
                      (Some (Wrapf ''failed to commit transaction : '' err), user1,
                       base (Rollback tx2))
                  | (None, tx2) \<Rightarrow> (None, user1, base (Rollback tx2))))))"

definition GetById :: "env \<Rightarrow> sqlStore \<Rightarrow> int \<Rightarrow> go_error + User" where
  "GetById e s i =
     (case QueryRowScan e s i of
        Inl err \<Rightarrow>
          if err = ErrNoRows then Inl ErrUserNotFound
          else Inl (Wrapf ''Failed to get user: '' err)
      | Inr user \<Rightarrow> Inr user)"

text \<open>The loop \<open>for rows.Next()\<close> of \<open>ListAll\<close>, over the rows left in the cursor.\<close>

fun scan_rows :: "env \<Rightarrow> User list \<Rightarrow> User list \<Rightarrow> go_error + User list" where
  "scan_rows e [] acc = Inr acc"
| "scan_rows e (r # rows) acc =
     (case Scan e r of
        Inl err \<Rightarrow> Inl (Wrapf ''failed to scan user : '' err)
      | Inr u \<Rightarrow> scan_rows e rows (acc @ [u]))"

definition ListAll :: "env \<Rightarrow> sqlStore \<Rightarrow> go_error + User list" where
  "ListAll e s =
     (case QueryContext e s of
        Inl err \<Rightarrow> Inl (Wrapf ''failed to list users : '' err)
      | Inr rows \<Rightarrow>
         (case scan_rows e rows [] of
            Inl err \<Rightarrow> Inl err
          | Inr us \<Rightarrow>
             (case fault e CallRowsErr of
                Some m \<Rightarrow> Inl (Wrapf ''error during rows iteration : '' (DriverError m))
              | None \<Rightarrow> Inr us)))"

definition Update :: "env \<Rightarrow> sqlStore \<Rightarrow> User \<Rightarrow> go_error option \<times> sqlStore" where
  "Update e s user =
     (case ExecUpdate e s (Username user) (Email user) (ID user) of
        Inl err \<Rightarrow> (Some (Wrapf ''failed to update user : '' err), s)
      | Inr (s1, result) \<Rightarrow>
         (case RowsAffected e result of
            Inl err \<Rightarrow> (Some err, s1)
          | Inr count \<Rightarrow>
             if count = 0 then (Some ErrUserNotFound, s1) else (None, s1)))"

definition Delete :: "env \<Rightarrow> sqlStore \<Rightarrow> int \<Rightarrow> go_error option \<times> sqlStore" where
  "Delete e s i =
     (case ExecDelete e s i of
        Inl err \<Rightarrow> (Some (Wrapf ''failed to delete user : '' err), s)
      | Inr (s1, result) \<Rightarrow>
         (case RowsAffected e result of
            Inl err \<Rightarrow> (Some err, s1)
          | Inr count \<Rightarrow>
             if count = 0 then (Some ErrUserNotFound, s1) else (None, s1)))"

section \<open>Histories\<close>

text \<open>
  A call on the store, with its environment and arguments, and its effect on the store.
  The two reads leave the store as it is.
\<close>

datatype op =
    OpCreate env User
  | OpGetById env int
  | OpListAll env
  | OpUpdate env User
  | OpDelete env int
  | OpClose env

fun apply_op :: "op \<Rightarrow> sqlStore \<Rightarrow> sqlStore" where
  "apply_op (OpCreate e u) s = snd (snd (Create e s u))"
| "apply_op (OpGetById e i) s = s"
| "apply_op (OpListAll e) s = s"
| "apply_op (OpUpdate e u) s = snd (Update e s u)"
| "apply_op (OpDelete e i) s = snd (Delete e s i)"
| "apply_op (OpClose e) s = snd (Close e s)"

text \<open>The id a call hands out: the one a successful \<open>Create\<close> writes to its argument.\<close>

fun assigned :: "op \<Rightarrow> sqlStore \<Rightarrow> int list" where
  "assigned (OpCreate e u) s =
     (case Create e s u of
        (None, u1, s1) \<Rightarrow> [ID u1]
      | (Some err, u1, s1) \<Rightarrow> [])"
| "assigned (OpGetById e i) s = []"
| "assigned (OpListAll e) s = []"
| "assigned (OpUpdate e u) s = []"
| "assigned (OpDelete e i) s = []"
| "assigned (OpClose e) s = []"

text \<open>
  A history of calls, run in order from a store: the store it ends in and the ids that
  were handed out on the way.
\<close>

fun run :: "sqlStore \<Rightarrow> op list \<Rightarrow> sqlStore \<times> int list" where
  "run s [] = (s, [])"
| "run s (c # cs) =
     (case run (apply_op c s) cs of
        (s1, ids) \<Rightarrow> (s1, assigned c s @ ids))"

text \<open>The stores that calls can lead to, from a new one.\<close>

inductive reachable :: "sqlStore \<Rightarrow> bool" where
  reachable_NewDb: "reachable NewDb"
| reachable_step: "reachable s \<Longrightarrow> reachable (apply_op c s)"

fun is_delete :: "op \<Rightarrow> bool" where
  "is_delete (OpDelete e i) = True"
| "is_delete c = False"

text \<open>A call that writes to the row of id \<open>i\<close>, if there is one: an update or a delete of \<open>i\<close>.\<close>

fun writes_row :: "int \<Rightarrow> op \<Rightarrow> bool" where
  "writes_row i (OpUpdate e u) = (ID u = i)"
| "writes_row i (OpDelete e j) = (j = i)"
| "writes_row i c = False"

text \<open>A call that asks the store to keep an empty username or email.\<close>

fun stores_empty :: "op \<Rightarrow> bool" where
  "stores_empty (OpCreate e u) = (Username u = [] \<or> Email u = [])"
| "stores_empty (OpUpdate e u) = (Username u = [] \<or> Email u = [])"
| "stores_empty c = False"

section \<open>Properties of a store\<close>

text \<open>The rows of a given id.\<close>

definition rows_of :: "sqlStore \<Rightarrow> int \<Rightarrow> User list" where
  "rows_of s i = filter (\<lambda>r. ID r = i) (users s)"

text \<open>Usernames and emails are each unique among the stored rows, and so are ids.\<close>

definition unique_columns :: "sqlStore \<Rightarrow> bool" where
  "unique_columns s =
     (distinct (map ID (users s)) \<and>
      distinct (map Username (users s)) \<and>
      distinct (map Email (users s)))"

definition no_empty_text :: "sqlStore \<Rightarrow> bool" where
  "no_empty_text s = list_all (\<lambda>r. Username r \<noteq> [] \<and> Email r \<noteq> []) (users s)"

text \<open>
  The recorded sequence value bounds every id in the table, and every id is positive.
\<close>

definition seq_bounds :: "sqlStore \<Rightarrow> bool" where
  "seq_bounds s = (0 \<le> seq s \<and> list_all (\<lambda>r. 0 < ID r \<and> ID r \<le> seq s) (users s))"

text \<open>A username or an email that a stored row already has.\<close>

definition collides :: "sqlStore \<Rightarrow> User \<Rightarrow> bool" where
  "collides s u = list_ex (\<lambda>r. Username r = Username u \<or> Email r = Email u) (users s)"

text \<open>The same, looking only at the rows of another id: what an update can run into.\<close>

definition collides_other :: "sqlStore \<Rightarrow> User \<Rightarrow> bool" where
  "collides_other s u =
     list_ex (\<lambda>r. ID r \<noteq> ID u \<and> (Username r = Username u \<or> Email r = Email u)) (users s)"

text \<open>The error of a result, if it is one.\<close>

definition err_of :: "go_error + 'a \<Rightarrow> go_error option" where
  "err_of r = (case r of Inl err \<Rightarrow> Some err | Inr v \<Rightarrow> None)"

definition ErrDBClosed :: go_error where
  "ErrDBClosed = DriverError ''sql: database is closed''"

section \<open>Example values\<close>

definition env0 :: env where
  "env0 = \<lparr>ctx_done = False, clock = 1700000000, fault = (\<lambda>c. None)\<rparr>"

text \<open>An environment in which committing fails.\<close>

definition env_commit_fails :: env where
  "env_commit_fails =
     \<lparr>ctx_done = False, clock = 1700000000,
      fault = (\<lambda>c. if c = CallCommit then Some ''disk I/O error'' else None)\<rparr>"

definition alice :: User where
  "alice = \<lparr>ID = 0, Username = ''alice'', Email = ''alice@x.com'', CreatedAt = 0\<rparr>"

definition alice2 :: User where
  "alice2 = \<lparr>ID = 0, Username = ''alice'', Email = ''other@x.com'', CreatedAt = 0\<rparr>"

definition bob :: User where
  "bob = \<lparr>ID = 0, Username = ''bob'', Email = ''bob@x.com'', CreatedAt = 0\<rparr>"

definition nameless :: User where
  "nameless = \<lparr>ID = 0, Username = [], Email = [], CreatedAt = 0\<rparr>"

text \<open>The store after \<open>alice\<close> has been created in a new one, and after \<open>bob\<close> as well.\<close>

definition alice_row :: User where
  "alice_row = \<lparr>ID = 1, Username = ''alice'', Email = ''alice@x.com'',
                 CreatedAt = 63835596800\<rparr>"

definition bob_row :: User where
  "bob_row = \<lparr>ID = 2, Username = ''bob'', Email = ''bob@x.com'', CreatedAt = 63835596800\<rparr>"

definition db_alice :: sqlStore where
  "db_alice = \<lparr>closed = False, users = [alice_row], seq = 1\<rparr>"

definition db_alice_bob :: sqlStore where
  "db_alice_bob = \<lparr>closed = False, users = [alice_row, bob_row], seq = 2\<rparr>"

definition robert :: User where
  "robert = \<lparr>ID = 2, Username = ''robert'', Email = ''rob@x.com'', CreatedAt = 0\<rparr>"

text \<open>Two histories: one that leaves the row of id 1 alone, one with a failing create.\<close>

definition history_others :: "op list" where
  "history_others = [OpCreate env0 bob, OpUpdate env0 robert, OpGetById env0 1, OpDelete env0 2]"

definition history_creates :: "op list" where
  "history_creates = [OpCreate env0 alice, OpCreate env0 alice2, OpListAll env0, OpCreate env0 bob]"

definition db_nameless :: sqlStore where
  "db_nameless = apply_op (OpCreate env0 nameless) NewDb"

section \<open>Auxiliary facts\<close>

lemmas engine_defs =
  conn_def sql_insert_def sql_update_def sql_delete_def ExecUpdate_def ExecDelete_def
  LastInsertId_def RowsAffected_def Scan_def QueryRowScan_def QueryContext_def BeginTx_def
  ExecInsert_def Commit_def Rollback_def

lemmas store_defs = Close_def Create_def GetById_def ListAll_def Update_def Delete_def

lemmas example_defs =
  env0_def env_commit_fails_def alice_def alice2_def bob_def nameless_def alice_row_def
  bob_row_def db_alice_def db_alice_bob_def NewDb_def MAX_ROWID_def CURRENT_TIMESTAMP_def
  unixToInternal_def top_rowid_def new_row_def overwrite_def

lemma conn_closed: "closed d \<Longrightarrow> conn e d c = Some ErrDBClosed"
  by (simp add: conn_def ErrDBClosed_def)

lemma conn_healthy: "\<not> closed d \<Longrightarrow> healthy e \<Longrightarrow> conn e d c = None"
  by (simp add: conn_def healthy_def)

lemma fault_healthy: "healthy e \<Longrightarrow> fault e c = None"
  by (simp add: healthy_def)

subsection \<open>The operations on the example stores\<close>

lemma Create_NewDb_alice: "Create env0 NewDb alice = (None, alice\<lparr>ID := 1\<rparr>, db_alice)"
  by (simp add: store_defs engine_defs example_defs)

lemma Create_db_alice_bob: "Create env0 db_alice bob = (None, bob\<lparr>ID := 2\<rparr>, db_alice_bob)"
  by (simp add: store_defs engine_defs example_defs)

lemma Create_db_alice_alice2: "Create env0 db_alice alice2 = (Some ErrDuplicateUser, alice2, db_alice)"
  by (simp add: store_defs engine_defs example_defs)

lemma Create_commit_fails:
  "Create env_commit_fails NewDb alice =
     (Some (Wrapf ''failed to commit transaction : '' (DriverError ''disk I/O error'')),
      alice\<lparr>ID := 1\<rparr>, NewDb)"
  by (simp add: store_defs engine_defs example_defs)

lemma GetById_db_alice: "GetById env0 db_alice 1 = Inr alice_row"
  by (simp add: store_defs engine_defs example_defs)

lemma Update_collision:
  "Update env0 db_alice_bob (bob\<lparr>ID := 2, Username := ''alice''\<rparr>) =
     (Some (Wrapf ''failed to update user : ''
        (DriverError ''UNIQUE constraint failed: users.username'')), db_alice_bob)"
  by (simp add: store_defs engine_defs example_defs)

lemma Delete_db_alice: "Delete env0 db_alice 1 = (None, NewDb\<lparr>seq := 1\<rparr>)"
  by (simp add: store_defs engine_defs example_defs)


subsection \<open>The next rowid\<close>

lemma fold_max_ge_init: "a \<le> fold max xs (a::int)"
  by (induction xs arbitrary: a) (auto intro: order_trans [OF max.cobounded2])

lemma fold_max_ge_mem: "x \<in> set xs \<Longrightarrow> x \<le> fold max xs (a::int)"
proof (induction xs arbitrary: a)
  case Nil
  then show ?case by simp
next
  case (Cons y ys)
  show ?case
  proof (cases "x = y")
    case True
    have "max y a \<le> fold max ys (max y a)" by (rule fold_max_ge_init)
    with True show ?thesis by simp
  next
    case False
    with Cons show ?thesis by simp
  qed
qed

lemma fold_max_bounded: "a \<le> b \<Longrightarrow> \<forall>x\<in>set xs. x \<le> b \<Longrightarrow> fold max xs (a::int) \<le> b"
  by (induction xs arbitrary: a) auto

lemma top_rowid_seq: "seq_bounds s \<Longrightarrow> top_rowid s = seq s"
proof -
  assume b: "seq_bounds s"
  then have "\<forall>x\<in>set (map ID (users s)). x \<le> seq s"
    by (auto simp: seq_bounds_def list_all_iff)
  then have "fold max (map ID (users s)) (seq s) \<le> seq s"
    by (intro fold_max_bounded) simp_all
  moreover have "seq s \<le> fold max (map ID (users s)) (seq s)"
    by (rule fold_max_ge_init)
  ultimately show ?thesis by (simp add: top_rowid_def)
qed

lemma ID_le_top_rowid: "r \<in> set (users s) \<Longrightarrow> ID r \<le> top_rowid s"
  unfolding top_rowid_def by (rule fold_max_ge_mem) simp

subsection \<open>The insert\<close>

lemma sql_insert_Inr:
  "sql_insert e d un em = Inr (d1, res) \<longleftrightarrow>
     top_rowid d < MAX_ROWID \<and>
     \<not> list_ex (\<lambda>r. Username r = un) (users d) \<and>
     \<not> list_ex (\<lambda>r. Email r = em) (users d) \<and>
     d1 = d\<lparr>users := users d @ [new_row e d un em], seq := top_rowid d + 1\<rparr> \<and>
     res = \<lparr>last_insert_id = top_rowid d + 1, rows_affected = 1\<rparr>"
  by (auto simp: sql_insert_def)

lemma sql_insert_ok:
  "top_rowid d < MAX_ROWID \<Longrightarrow> \<not> list_ex (\<lambda>r. Username r = un) (users d) \<Longrightarrow>
   \<not> list_ex (\<lambda>r. Email r = em) (users d) \<Longrightarrow>
   sql_insert e d un em =
     Inr (d\<lparr>users := users d @ [new_row e d un em], seq := top_rowid d + 1\<rparr>,
          \<lparr>last_insert_id = top_rowid d + 1, rows_affected = 1\<rparr>)"
  by (simp add: sql_insert_Inr)

lemma sql_insert_unique:
  "top_rowid d < MAX_ROWID \<Longrightarrow>
   list_ex (\<lambda>r. Username r = un \<or> Email r = em) (users d) \<Longrightarrow>
   \<exists>m. sql_insert e d un em = Inl (DriverError m) \<and> Contains m ''UNIQUE constraint failed''"
  by (auto simp: sql_insert_def list_ex_iff)

text \<open>What \<open>Create\<close> does, by cases: it fails and the store is as before, or the insert
  went through and was committed.\<close>

lemma Create_cases:
  "(\<exists>err u1. Create e s u = (Some err, u1, s)) \<or>
   (\<not> closed s \<and> top_rowid s < MAX_ROWID \<and>
    \<not> list_ex (\<lambda>r. Username r = Username u) (users s) \<and>
    \<not> list_ex (\<lambda>r. Email r = Email u) (users s) \<and>
    Create e s u =
      (None, u\<lparr>ID := top_rowid s + 1\<rparr>,
       s\<lparr>users := users s @ [new_row e s (Username u) (Email u)], seq := top_rowid s + 1\<rparr>))"
proof (cases "BeginTx e s")
  case (Inl err)
  then show ?thesis by (simp add: Create_def)
next
  case (Inr tx)
  then have tx: "tx = \<lparr>base = s, work = s, finished = False\<rparr>" and op: "\<not> closed s"
    by (auto simp: BeginTx_def conn_def split: option.splits if_splits)
  show ?thesis
  proof (cases "ExecInsert e tx (Username u) (Email u)")
    case (Inl err)
    with Inr tx show ?thesis by (simp add: Create_def Rollback_def)
  next
    case ins: (Inr p)
    obtain tx1 res where p: "p = (tx1, res)" by (cases p)
    from ins p tx obtain d where
      d: "sql_insert e s (Username u) (Email u) = Inr (d, res)" and tx1: "tx1 = tx\<lparr>work := d\<rparr>"
      by (auto simp: ExecInsert_def split: option.splits sum.splits)
    note facts = d [unfolded sql_insert_Inr]
    show ?thesis
    proof (cases "LastInsertId e res")
      case (Inl err)
      with Inr ins p tx tx1 show ?thesis by (simp add: Create_def Rollback_def)
    next
      case lid: (Inr i)
      then have i: "i = top_rowid s + 1"
        using facts by (auto simp: LastInsertId_def split: option.splits)
      show ?thesis
      proof (cases "fault e CallCommit")
        case None
        with Inr ins p tx tx1 lid i facts op show ?thesis
          by (simp add: Create_def Rollback_def Commit_def)
      next
        case (Some m)
        with Inr ins p tx tx1 lid show ?thesis
          by (simp add: Create_def Rollback_def Commit_def)
      qed
    qed
  qed
qed

lemma Create_healthy_ok:
  assumes "\<not> closed s" "healthy e" "top_rowid s < MAX_ROWID" "\<not> collides s u"
  shows "Create e s u =
      (None, u\<lparr>ID := top_rowid s + 1\<rparr>,
       s\<lparr>users := users s @ [new_row e s (Username u) (Email u)], seq := top_rowid s + 1\<rparr>)"
proof -
  from assms(4) have nc: "\<not> list_ex (\<lambda>r. Username r = Username u) (users s)"
      "\<not> list_ex (\<lambda>r. Email r = Email u) (users s)"
    by (auto simp: collides_def list_ex_iff)
  show ?thesis
    using assms(1,2,3)
    by (simp add: Create_def BeginTx_def ExecInsert_def conn_healthy sql_insert_ok [OF _ nc]
        LastInsertId_def Commit_def Rollback_def fault_healthy)
qed

lemma Create_healthy_dup:
  assumes "\<not> closed s" "healthy e" "top_rowid s < MAX_ROWID" "collides s u"
  shows "Create e s u = (Some ErrDuplicateUser, u, s)"
proof -
  from assms(3,4) obtain m where
    m: "sql_insert e s (Username u) (Email u) = Inl (DriverError m)"
       "Contains m ''UNIQUE constraint failed''"
    using sql_insert_unique [of s "Username u" "Email u" e] by (auto simp: collides_def)
  show ?thesis
    using assms(1,2) m
    by (simp add: Create_def BeginTx_def ExecInsert_def conn_healthy Rollback_def)
qed


subsection \<open>The update and the delete\<close>

lemma sql_update_absent:
  "rows_of s i = [] \<Longrightarrow>
   sql_update s un em i = Inr (s, \<lparr>last_insert_id = 0, rows_affected = 0\<rparr>)"
  by (simp add: sql_update_def rows_of_def)

lemma sql_update_Inr:
  "sql_update s un em i = Inr (s1, res) \<Longrightarrow>
     (rows_of s i = [] \<and> s1 = s \<and> rows_affected res = 0) \<or>
     (rows_of s i \<noteq> [] \<and> 0 < rows_affected res \<and>
      \<not> list_ex (\<lambda>r. ID r \<noteq> i \<and> Username r = un) (users s) \<and>
      \<not> list_ex (\<lambda>r. ID r \<noteq> i \<and> Email r = em) (users s) \<and>
      s1 = s\<lparr>users := map (overwrite i un em) (users s)\<rparr>)"
  by (auto simp: sql_update_def rows_of_def Let_def split: if_splits)

text \<open>What \<open>Update\<close> does to the store, by cases.\<close>

lemma Update_cases:
  "snd (Update e s u) = s \<or>
   (\<not> closed s \<and> rows_of s (ID u) \<noteq> [] \<and> \<not> collides_other s u \<and>
    snd (Update e s u) = s\<lparr>users := map (overwrite (ID u) (Username u) (Email u)) (users s)\<rparr> \<and>
    (fault e CallRowsAffected = None \<longrightarrow> fst (Update e s u) = None))"
proof (cases "ExecUpdate e s (Username u) (Email u) (ID u)")
  case (Inl err)
  then show ?thesis by (simp add: Update_def)
next
  case (Inr p)
  obtain s1 res where p: "p = (s1, res)" by (cases p)
  from Inr p have op: "\<not> closed s" and
    upd: "sql_update s (Username u) (Email u) (ID u) = Inr (s1, res)"
    by (auto simp: ExecUpdate_def conn_def split: option.splits if_splits)
  have s1: "snd (Update e s u) = s1"
    using Inr p by (simp add: Update_def split: sum.splits)
  from sql_update_Inr [OF upd] show ?thesis
  proof
    assume "rows_of s (ID u) = [] \<and> s1 = s \<and> rows_affected res = 0"
    with s1 show ?thesis by simp
  next
    assume h: "rows_of s (ID u) \<noteq> [] \<and> 0 < rows_affected res \<and>
      \<not> list_ex (\<lambda>r. ID r \<noteq> ID u \<and> Username r = Username u) (users s) \<and>
      \<not> list_ex (\<lambda>r. ID r \<noteq> ID u \<and> Email r = Email u) (users s) \<and>
      s1 = s\<lparr>users := map (overwrite (ID u) (Username u) (Email u)) (users s)\<rparr>"
    then have "\<not> collides_other s u"
      by (auto simp: collides_other_def list_ex_iff)
    moreover have "fault e CallRowsAffected = None \<longrightarrow> fst (Update e s u) = None"
      using Inr p h by (simp add: Update_def RowsAffected_def)
    ultimately show ?thesis using h s1 op by simp
  qed
qed

lemma Delete_cases:
  "snd (Delete e s i) = s \<or>
   (\<not> closed s \<and> snd (Delete e s i) = s\<lparr>users := filter (\<lambda>r. ID r \<noteq> i) (users s)\<rparr>)"
  by (auto simp: Delete_def ExecDelete_def conn_def sql_delete_def
      split: option.splits sum.splits if_splits)

lemma Close_cases: "snd (Close e s) = s \<or> snd (Close e s) = s\<lparr>closed := True\<rparr>"
  by (simp add: Close_def)

subsection \<open>Invariants\<close>

lemma ID_overwrite [simp]: "ID (overwrite i un em r) = ID r"
  by (simp add: overwrite_def)

lemma CreatedAt_overwrite [simp]: "CreatedAt (overwrite i un em r) = CreatedAt r"
  by (simp add: overwrite_def)

lemma distinct_map_overwrite:
  assumes "distinct (map ID xs)" "distinct (map f xs)"
    and "\<forall>r\<in>set xs. ID r \<noteq> i \<longrightarrow> f r \<noteq> v"
    and "\<And>r. ID r = i \<Longrightarrow> f (overwrite i un em r) = v"
  shows "distinct (map f (map (overwrite i un em) xs))"
  using assms(1,2,3)
proof (induction xs)
  case Nil
  then show ?case by simp
next
  case (Cons x xs)
  then have IH: "distinct (map f (map (overwrite i un em) xs))" by simp
  have notin: "f (overwrite i un em x) \<notin> f ` overwrite i un em ` set xs"
  proof
    assume "f (overwrite i un em x) \<in> f ` overwrite i un em ` set xs"
    then obtain r where r: "r \<in> set xs" "f (overwrite i un em x) = f (overwrite i un em r)"
      by auto
    have "ID r \<in> ID ` set xs" using r(1) by (rule imageI)
    moreover have "ID x \<notin> ID ` set xs" using Cons.prems(1) by simp
    ultimately have ne: "ID r \<noteq> ID x" by metis
    show False
    proof (cases "ID x = i")
      case True
      with ne have "ID r \<noteq> i" by simp
      then have "f (overwrite i un em r) = f r" by (simp add: overwrite_def)
      moreover have "f (overwrite i un em x) = v" using True by (rule assms(4))
      moreover have "f r \<noteq> v" using Cons.prems(3) r(1) \<open>ID r \<noteq> i\<close> by simp
      ultimately show False using r(2) by simp
    next
      case False
      then have fx: "f (overwrite i un em x) = f x" by (simp add: overwrite_def)
      have "f x \<noteq> v" using Cons.prems(3) False by simp
      have "f x \<noteq> f r" using Cons.prems(2) r(1) by auto
      show False
      proof (cases "ID r = i")
        case True
        then have "f (overwrite i un em r) = v" by (rule assms(4))
        with fx r(2) \<open>f x \<noteq> v\<close> show False by simp
      next
        case False
        then have "f (overwrite i un em r) = f r" by (simp add: overwrite_def)
        with fx r(2) \<open>f x \<noteq> f r\<close> show False by simp
      qed
    qed
  qed
  from IH notin show ?case by (simp add: image_image)
qed

lemma unique_columns_Create:
  assumes "unique_columns s"
  shows "unique_columns (snd (snd (Create e s u)))"
proof -
  from Create_cases [of e s u] show ?thesis
  proof
    assume "\<exists>err u1. Create e s u = (Some err, u1, s)"
    with assms show ?thesis by auto
  next
    assume h: "\<not> closed s \<and> top_rowid s < MAX_ROWID \<and>
      \<not> list_ex (\<lambda>r. Username r = Username u) (users s) \<and>
      \<not> list_ex (\<lambda>r. Email r = Email u) (users s) \<and>
      Create e s u =
        (None, u\<lparr>ID := top_rowid s + 1\<rparr>,
         s\<lparr>users := users s @ [new_row e s (Username u) (Email u)], seq := top_rowid s + 1\<rparr>)"
    have "top_rowid s + 1 \<notin> ID ` set (users s)"
      using ID_le_top_rowid [of _ s] by fastforce
    with h assms show ?thesis
      by (auto simp: unique_columns_def new_row_def list_ex_iff)
  qed
qed

lemma unique_columns_Update:
  assumes "unique_columns s"
  shows "unique_columns (snd (Update e s u))"
proof -
  from Update_cases [of e s u] show ?thesis
  proof
    assume "snd (Update e s u) = s"
    with assms show ?thesis by simp
  next
    assume h: "\<not> closed s \<and> rows_of s (ID u) \<noteq> [] \<and> \<not> collides_other s u \<and>
      snd (Update e s u) = s\<lparr>users := map (overwrite (ID u) (Username u) (Email u)) (users s)\<rparr> \<and>
      (fault e CallRowsAffected = None \<longrightarrow> fst (Update e s u) = None)"
    then have nc: "\<forall>r\<in>set (users s). ID r \<noteq> ID u \<longrightarrow> Username r \<noteq> Username u"
        "\<forall>r\<in>set (users s). ID r \<noteq> ID u \<longrightarrow> Email r \<noteq> Email u"
      by (auto simp: collides_other_def list_ex_iff)
    from assms have d: "distinct (map ID (users s))" "distinct (map Username (users s))"
        "distinct (map Email (users s))"
      by (simp_all add: unique_columns_def)
    have "distinct (map Username (map (overwrite (ID u) (Username u) (Email u)) (users s)))"
      by (rule distinct_map_overwrite [OF d(1) d(2) nc(1)]) (simp add: overwrite_def)
    moreover
    have "distinct (map Email (map (overwrite (ID u) (Username u) (Email u)) (users s)))"
      by (rule distinct_map_overwrite [OF d(1) d(3) nc(2)]) (simp add: overwrite_def)
    moreover
    have "map ID (map (overwrite (ID u) (Username u) (Email u)) (users s)) = map ID (users s)"
      by simp
    ultimately show ?thesis using h d(1) by (simp add: unique_columns_def del: map_map)
  qed
qed

lemma unique_columns_Delete:
  assumes "unique_columns s"
  shows "unique_columns (snd (Delete e s i))"
  using Delete_cases [of e s i] assms
  by (auto simp: unique_columns_def distinct_map_filter)

lemma unique_columns_Close: "unique_columns s \<Longrightarrow> unique_columns (snd (Close e s))"
  using Close_cases [of e s] by (auto simp: unique_columns_def)

lemma unique_columns_apply_op: "unique_columns s \<Longrightarrow> unique_columns (apply_op c s)"
  by (cases c)
    (simp_all add: unique_columns_Create unique_columns_Update unique_columns_Delete
      unique_columns_Close)


lemma seq_bounds_apply_op:
  assumes "seq_bounds s"
  shows "seq_bounds (apply_op c s) \<and> seq s \<le> seq (apply_op c s)"
proof (cases c)
  case (OpCreate e u)
  from Create_cases [of e s u] show ?thesis
  proof
    assume "\<exists>err u1. Create e s u = (Some err, u1, s)"
    with assms OpCreate show ?thesis by auto
  next
    assume h: "\<not> closed s \<and> top_rowid s < MAX_ROWID \<and>
      \<not> list_ex (\<lambda>r. Username r = Username u) (users s) \<and>
      \<not> list_ex (\<lambda>r. Email r = Email u) (users s) \<and>
      Create e s u =
        (None, u\<lparr>ID := top_rowid s + 1\<rparr>,
         s\<lparr>users := users s @ [new_row e s (Username u) (Email u)], seq := top_rowid s + 1\<rparr>)"
    with assms OpCreate show ?thesis
      by (auto simp: seq_bounds_def top_rowid_seq new_row_def list_all_iff)
  qed
next
  case (OpUpdate e u)
  with Update_cases [of e s u] assms show ?thesis
    by (auto simp: seq_bounds_def list_all_iff)
next
  case (OpDelete e i)
  with Delete_cases [of e s i] assms show ?thesis
    by (auto simp: seq_bounds_def list_all_iff)
next
  case (OpClose e)
  with Close_cases [of e s] assms show ?thesis
    by (auto simp: seq_bounds_def)
qed (use assms in simp_all)

lemma assigned_bounds:
  assumes "seq_bounds s" "i \<in> set (assigned c s)"
  shows "seq s < i \<and> i \<le> seq (apply_op c s)"
proof (cases c)
  case (OpCreate e u)
  from Create_cases [of e s u] show ?thesis
  proof
    assume "\<exists>err u1. Create e s u = (Some err, u1, s)"
    with assms OpCreate show ?thesis by auto
  next
    assume h: "\<not> closed s \<and> top_rowid s < MAX_ROWID \<and>
      \<not> list_ex (\<lambda>r. Username r = Username u) (users s) \<and>
      \<not> list_ex (\<lambda>r. Email r = Email u) (users s) \<and>
      Create e s u =
        (None, u\<lparr>ID := top_rowid s + 1\<rparr>,
         s\<lparr>users := users s @ [new_row e s (Username u) (Email u)], seq := top_rowid s + 1\<rparr>)"
    with assms OpCreate show ?thesis
      by (simp add: top_rowid_seq)
  qed
qed (use assms in simp_all)

lemma run_bounds:
  "seq_bounds s \<Longrightarrow> run s cs = (s1, ids) \<Longrightarrow>
     seq_bounds s1 \<and> seq s \<le> seq s1 \<and> (\<forall>i\<in>set ids. seq s < i \<and> i \<le> seq s1)"
proof (induction cs arbitrary: s ids)
  case Nil
  then show ?case by simp
next
  case (Cons c cs)
  obtain ids1 where r: "run (apply_op c s) cs = (s1, ids1)" and ids: "ids = assigned c s @ ids1"
    using Cons.prems(2) by (auto split: prod.splits)
  from seq_bounds_apply_op [OF Cons.prems(1), of c]
  have b: "seq_bounds (apply_op c s)" and m: "seq s \<le> seq (apply_op c s)" by simp_all
  from Cons.IH [OF b r]
  have IH: "seq_bounds s1" "seq (apply_op c s) \<le> seq s1"
    "\<forall>i\<in>set ids1. seq (apply_op c s) < i \<and> i \<le> seq s1" by simp_all
  have "\<forall>i\<in>set (assigned c s). seq s < i \<and> i \<le> seq s1"
    using assigned_bounds [OF Cons.prems(1)] IH(2) by fastforce
  moreover have "\<forall>i\<in>set ids1. seq s < i \<and> i \<le> seq s1"
    using IH(3) m by fastforce
  ultimately show ?case using IH(1,2) m ids by auto
qed

lemma seq_bounds_NewDb: "seq_bounds NewDb"
  by (simp add: seq_bounds_def NewDb_def)

lemma unique_columns_NewDb: "unique_columns NewDb"
  by (simp add: unique_columns_def NewDb_def)

lemma no_empty_text_apply_op:
  assumes "no_empty_text s" "\<not> stores_empty c"
  shows "no_empty_text (apply_op c s)"
proof (cases c)
  case (OpCreate e u)
  with Create_cases [of e s u] assms show ?thesis
    by (auto simp: no_empty_text_def new_row_def list_all_iff)
next
  case (OpUpdate e u)
  with Update_cases [of e s u] assms show ?thesis
    by (auto simp: no_empty_text_def overwrite_def list_all_iff)
next
  case (OpDelete e i)
  with Delete_cases [of e s i] assms show ?thesis
    by (auto simp: no_empty_text_def list_all_iff)
next
  case (OpClose e)
  with Close_cases [of e s] assms show ?thesis
    by (auto simp: no_empty_text_def)
qed (use assms in simp_all)

subsection \<open>The reads\<close>

lemma Scan_healthy: "healthy e \<Longrightarrow> Scan e r = Inr r"
  by (simp add: Scan_def fault_healthy)

lemma GetById_healthy:
  "\<not> closed s \<Longrightarrow> healthy e \<Longrightarrow>
   GetById e s i = (case rows_of s i of [] \<Rightarrow> Inl ErrUserNotFound | r # rs \<Rightarrow> Inr r)"
  by (simp add: GetById_def QueryRowScan_def conn_healthy Scan_healthy rows_of_def
      split: list.splits)

lemma scan_rows_healthy: "healthy e \<Longrightarrow> scan_rows e rows acc = Inr (acc @ rows)"
  by (induction rows arbitrary: acc) (simp_all add: Scan_healthy)

lemma ListAll_healthy: "\<not> closed s \<Longrightarrow> healthy e \<Longrightarrow> ListAll e s = Inr (users s)"
  by (simp add: ListAll_def QueryContext_def conn_healthy scan_rows_healthy fault_healthy)

subsection \<open>Histories\<close>

lemma fst_run_Cons: "fst (run s (c # cs)) = fst (run (apply_op c s) cs)"
  by (simp split: prod.splits)

lemma filter_ID_overwrite:
  "j \<noteq> i \<Longrightarrow> filter (\<lambda>r. ID r = i) (map (overwrite j un em) xs) = filter (\<lambda>r. ID r = i) xs"
  by (induction xs) (auto simp: overwrite_def)

lemma rows_of_apply_op:
  assumes "rows_of s i \<noteq> []" "\<not> writes_row i c"
  shows "rows_of (apply_op c s) i = rows_of s i"
proof (cases c)
  case (OpCreate e u)
  from assms(1) obtain r where r: "r \<in> set (users s)" "ID r = i"
    by (auto simp: rows_of_def filter_empty_conv)
  then have "i \<le> top_rowid s" using ID_le_top_rowid [of r s] by simp
  then have "ID (new_row e s (Username u) (Email u)) \<noteq> i"
    by (simp add: new_row_def)
  with Create_cases [of e s u] OpCreate show ?thesis
    by (auto simp: rows_of_def)
next
  case (OpUpdate e u)
  with assms(2) have "ID u \<noteq> i" by simp
  with Update_cases [of e s u] OpUpdate show ?thesis
    by (auto simp: rows_of_def filter_ID_overwrite)
next
  case (OpDelete e j)
  with assms(2) have "j \<noteq> i" by simp
  then have "filter (\<lambda>r. ID r = i) (filter (\<lambda>r. ID r \<noteq> j) (users s)) =
      filter (\<lambda>r. ID r = i) (users s)"
    by (auto intro: filter_cong)
  with Delete_cases [of e s j] OpDelete show ?thesis
    by (auto simp: rows_of_def)
next
  case (OpClose e)
  with Close_cases [of e s] show ?thesis
    by (auto simp: rows_of_def)
qed (simp_all)

lemma rows_of_run:
  "rows_of s i \<noteq> [] \<Longrightarrow> \<not> list_ex (writes_row i) cs \<Longrightarrow>
   rows_of (fst (run s cs)) i = rows_of s i"
proof (induction cs arbitrary: s)
  case Nil
  then show ?case by simp
next
  case (Cons c cs)
  then have c: "\<not> writes_row i c" and cs: "\<not> list_ex (writes_row i) cs" by simp_all
  from rows_of_apply_op [OF Cons.prems(1) c]
  have eq: "rows_of (apply_op c s) i = rows_of s i" .
  with Cons.prems(1) have "rows_of (apply_op c s) i \<noteq> []" by simp
  from Cons.IH [OF this cs] eq show ?case
    by (simp only: fst_run_Cons)
qed

lemma length_users_apply_op:
  assumes "\<not> is_delete c"
  shows "length (users (apply_op c s)) = length (users s) + length (assigned c s)"
proof (cases c)
  case (OpCreate e u)
  with Create_cases [of e s u] show ?thesis by auto
next
  case (OpUpdate e u)
  with Update_cases [of e s u] show ?thesis by auto
next
  case (OpDelete e j)
  with assms show ?thesis by simp
next
  case (OpClose e)
  with Close_cases [of e s] show ?thesis by auto
qed (simp_all)

lemma length_users_run:
  "\<not> list_ex is_delete cs \<Longrightarrow> run s cs = (s1, ids) \<Longrightarrow>
   length (users s1) = length (users s) + length ids"
proof (induction cs arbitrary: s ids)
  case Nil
  then show ?case by simp
next
  case (Cons c cs)
  obtain ids1 where r: "run (apply_op c s) cs = (s1, ids1)" and ids: "ids = assigned c s @ ids1"
    using Cons.prems(2) by (auto split: prod.splits)
  from Cons.prems(1) have c: "\<not> is_delete c" and cs: "\<not> list_ex is_delete cs" by simp_all
  from Cons.IH [OF cs r] length_users_apply_op [OF c, of s] ids show ?case by simp
qed

lemma reachable_unique_columns: "reachable s \<Longrightarrow> unique_columns s"
  by (induction rule: reachable.induct) (simp_all add: unique_columns_NewDb unique_columns_apply_op)

subsection \<open>Further facts about the operations and the examples\<close>

lemma sql_update_unique:
  "rows_of s i \<noteq> [] \<Longrightarrow>
   list_ex (\<lambda>r. ID r \<noteq> i \<and> (Username r = un \<or> Email r = em)) (users s) \<Longrightarrow>
   \<exists>m. sql_update s un em i = Inl (DriverError m) \<and> Contains m ''UNIQUE constraint failed''"
  by (auto simp: sql_update_def rows_of_def list_ex_iff)

lemma ExecInsert_keeps:
  "ExecInsert e tx un em = Inr (tx1, res) \<Longrightarrow> base tx1 = base tx \<and> finished tx1 = finished tx"
  by (auto simp: ExecInsert_def split: option.splits sum.splits)

lemma run_NewDb_alice: "run NewDb [OpCreate env0 alice] = (db_alice, [1])"
  by (simp add: Create_NewDb_alice)

lemma Update_None:
  assumes "fst (Update e s u) = None"
  shows "rows_of s (ID u) \<noteq> [] \<and>
     snd (Update e s u) = s\<lparr>users := map (overwrite (ID u) (Username u) (Email u)) (users s)\<rparr>"
proof -
  from assms obtain s1 res where
    ex: "ExecUpdate e s (Username u) (Email u) (ID u) = Inr (s1, res)" and
    cnt: "rows_affected res \<noteq> 0" and s1: "snd (Update e s u) = s1"
    by (auto simp: Update_def RowsAffected_def split: sum.splits option.splits if_splits)
  from ex have "sql_update s (Username u) (Email u) (ID u) = Inr (s1, res)"
    by (auto simp: ExecUpdate_def split: option.splits)
  from sql_update_Inr [OF this] cnt s1 show ?thesis by auto
qed

lemma rows_of_overwritten:
  "r \<in> set (rows_of (s\<lparr>users := map (overwrite i un em) (users s)\<rparr>) i) \<Longrightarrow>
   Username r = un \<and> Email r = em"
proof -
  assume "r \<in> set (rows_of (s\<lparr>users := map (overwrite i un em) (users s)\<rparr>) i)"
  then have m: "r \<in> overwrite i un em ` set (users s)" and i: "ID r = i"
    by (simp_all add: rows_of_def)
  from m obtain x where x: "r = overwrite i un em x" ..
  from x i have "ID x = i" by simp
  with x show ?thesis by (simp add: overwrite_def)
qed

lemma rows_of_overwrite_nonempty:
  "rows_of s i \<noteq> [] \<Longrightarrow> rows_of (s\<lparr>users := map (overwrite i un em) (users s)\<rparr>) i \<noteq> []"
proof -
  assume "rows_of s i \<noteq> []"
  then obtain r where r: "r \<in> set (users s)" "ID r = i"
    by (auto simp: rows_of_def filter_empty_conv)
  then have "overwrite i un em r \<in> set (map (overwrite i un em) (users s))" by simp
  moreover have "ID (overwrite i un em r) = i" using r(2) by simp
  ultimately have "\<exists>x\<in>set (map (overwrite i un em) (users s)). ID x = i" by (rule bexI[rotated])
  then show ?thesis
    unfolding rows_of_def filter_empty_conv by simp
qed

lemma sql_update_ok:
  "rows_of s i \<noteq> [] \<Longrightarrow>
   \<not> list_ex (\<lambda>r. ID r \<noteq> i \<and> Username r = un) (users s) \<Longrightarrow>
   \<not> list_ex (\<lambda>r. ID r \<noteq> i \<and> Email r = em) (users s) \<Longrightarrow>
   sql_update s un em i =
     Inr (s\<lparr>users := map (overwrite i un em) (users s)\<rparr>,
          \<lparr>last_insert_id = 0, rows_affected = int (length (rows_of s i))\<rparr>)"
  by (simp add: sql_update_def rows_of_def)

lemma Update_robert:
  "Update env0 db_alice_bob robert =
     (None, \<lparr>closed = False,
             users = [alice_row, \<lparr>ID = 2, Username = ''robert'', Email = ''rob@x.com'',
                                  CreatedAt = 63835596800\<rparr>],
             seq = 2\<rparr>)"
  by (simp add: store_defs engine_defs example_defs robert_def)

lemma run_history_others:
  "run db_alice history_others = (db_alice\<lparr>seq := 2\<rparr>, [2])"
  unfolding history_others_def
  by (simp add: Create_db_alice_bob Update_robert)
    (simp add: store_defs engine_defs example_defs)

lemma run_history_creates:
  "run NewDb history_creates = (db_alice_bob, [1, 2])"
  unfolding history_creates_def
  by (simp add: Create_NewDb_alice Create_db_alice_alice2 Create_db_alice_bob)

lemma Create_None_row:
  assumes "Create e s u = (None, u1, s1)"
  shows "rows_of s1 (ID u1) = [new_row e s (Username u) (Email u)] \<and>
     users s1 = users s @ [new_row e s (Username u) (Email u)] \<and>
     ID u1 = top_rowid s + 1"
proof -
  from Create_cases [of e s u] assms
  have u1: "u1 = u\<lparr>ID := top_rowid s + 1\<rparr>" and
    s1: "s1 = s\<lparr>users := users s @ [new_row e s (Username u) (Email u)],
                 seq := top_rowid s + 1\<rparr>"
    by auto
  have "filter (\<lambda>r. ID r = top_rowid s + 1) (users s) = []"
    using ID_le_top_rowid [of _ s] by (fastforce simp: filter_empty_conv)
  with u1 s1 show ?thesis
    by (simp add: rows_of_def new_row_def)
qed

lemma db_nameless_eq:
  "db_nameless =
     \<lparr>closed = False,
      users = [\<lparr>ID = 1, Username = [], Email = [], CreatedAt = 63835596800\<rparr>], seq = 1\<rparr>"
  by (simp add: db_nameless_def store_defs engine_defs example_defs)

lemma reachable_db_alice: "reachable db_alice"
  using reachable_step [OF reachable_NewDb, of "OpCreate env0 alice"]
  by (simp add: Create_NewDb_alice)

lemma reachable_db_alice_bob: "reachable db_alice_bob"
  using reachable_step [OF reachable_db_alice, of "OpCreate env0 bob"]
  by (simp add: Create_db_alice_bob)

lemma no_empty_text_run:
  "no_empty_text s \<Longrightarrow> \<not> list_ex stores_empty cs \<Longrightarrow> no_empty_text (fst (run s cs))"
proof (induction cs arbitrary: s)
  case Nil
  then show ?case by simp
next
  case (Cons c cs)
  then have c: "\<not> stores_empty c" and cs: "\<not> list_ex stores_empty cs" by simp_all
  from no_empty_text_apply_op [OF Cons.prems(1) c]
  have "no_empty_text (apply_op c s)" .
  from Cons.IH [OF this cs] show ?case by (simp only: fst_run_Cons)
qed

section \<open>Claims\<close>

text \<open>
  C1.  As the claim states it, the record handed back by a successful \<open>Create\<close> would
  carry a non-zero \<open>CreatedAt\<close>.  It does not: \<open>alice\<close>, created in a new store, comes
  back with the zero time she came with.
\<close>

theorem Create_leaves_CreatedAt_counterexample:
  "fst (Create env0 NewDb alice) = None \<and>
   IsZero (CreatedAt (fst (snd (Create env0 NewDb alice))))"
  unfolding Create_NewDb_alice by (simp add: IsZero_def alice_def)

text \<open>
  C1, amended.  Let the store \<open>s\<close> be where a history of calls from a new store has
  led, \<open>ids\<close> being the ids handed out on the way.  If \<open>s\<close> is open, the environment
  healthy, the sequence value below the largest rowid, and no stored row has the
  username or the email of \<open>u\<close>, then \<open>Create\<close> succeeds; the id it writes to the record
  is positive, was never handed out in the history and is the id of no stored row; the
  row it stores has that id, the username and email of \<open>u\<close> and the engine's current
  time, which is not the zero time; and the record handed back is \<open>u\<close> with only \<open>ID\<close>
  written: its \<open>CreatedAt\<close> is the one it came with.
\<close>

theorem Create_assigns_fresh_positive_id:
  assumes "run NewDb cs = (s, ids)"
    and "\<not> closed s" and "healthy e" and "seq s < MAX_ROWID" and "\<not> collides s u"
  shows "fst (Create e s u) = None \<and>
     fst (snd (Create e s u)) = u\<lparr>ID := seq s + 1\<rparr> \<and>
     0 < seq s + 1 \<and>
     seq s + 1 \<notin> set ids \<and>
     seq s + 1 \<notin> ID ` set (users s) \<and>
     users (snd (snd (Create e s u))) =
       users s @ [\<lparr>ID = seq s + 1, Username = Username u, Email = Email u,
                   CreatedAt = CURRENT_TIMESTAMP e\<rparr>] \<and>
     \<not> IsZero (CURRENT_TIMESTAMP e) \<and>
     CreatedAt (fst (snd (Create e s u))) = CreatedAt u"
proof -
  from run_bounds [OF seq_bounds_NewDb assms(1)]
  have b: "seq_bounds s" and ids: "\<forall>i\<in>set ids. seq NewDb < i \<and> i \<le> seq s" by simp_all
  have top: "top_rowid s = seq s" using b by (rule top_rowid_seq)
  with assms(4) have lt: "top_rowid s < MAX_ROWID" by simp
  note c = Create_healthy_ok [OF assms(2,3) lt assms(5), unfolded top]
  have pos: "0 < seq s + 1" using b by (simp add: seq_bounds_def)
  have fresh: "seq s + 1 \<notin> set ids" using ids by auto
  have unused: "seq s + 1 \<notin> ID ` set (users s)"
    using b by (auto simp: seq_bounds_def list_all_iff)
  have nz: "\<not> IsZero (CURRENT_TIMESTAMP e)"
    by (simp add: IsZero_def CURRENT_TIMESTAMP_def unixToInternal_def)
  from c pos fresh unused nz show ?thesis
    by (simp add: new_row_def top)
qed

theorem Create_assigns_fresh_positive_id_witness:
  "run NewDb [OpCreate env0 alice] = (db_alice, [1]) \<and>
   \<not> closed db_alice \<and> healthy env0 \<and> seq db_alice < MAX_ROWID \<and> \<not> collides db_alice bob \<and>
   fst (Create env0 db_alice bob) = None \<and>
   fst (snd (Create env0 db_alice bob)) = bob\<lparr>ID := 2\<rparr> \<and>
   users (snd (snd (Create env0 db_alice bob))) = [alice_row, bob_row] \<and>
   CreatedAt (fst (snd (Create env0 db_alice bob))) = 0"
proof -
  have h: "\<not> closed db_alice" "healthy env0" "seq db_alice < MAX_ROWID"
      "\<not> collides db_alice bob"
    by (simp_all add: healthy_def collides_def example_defs)
  from Create_assigns_fresh_positive_id [OF run_NewDb_alice h] h run_NewDb_alice
  show ?thesis
    by (simp add: example_defs)
qed

text \<open>
  C2.  On an open store, in a healthy environment and with ids left to give, a
  \<open>Create\<close> whose username or email is that of a stored row returns the sentinel
  \<open>ErrDuplicateUser\<close> itself, which the caller compares by equality.  An \<open>Update\<close> of
  an existing id whose new username or email is that of another row returns the
  engine's uniqueness error wrapped by \<open>failed to update user\<close>: a storage error, not
  the sentinel.  Neither changes the store.
\<close>

theorem duplicate_on_Create_storage_error_on_Update:
  "(\<not> closed s \<and> healthy e \<and> top_rowid s < MAX_ROWID \<and> collides s u \<longrightarrow>
      Create e s u = (Some ErrDuplicateUser, u, s) \<and>
      classify ErrDuplicateUser = DuplicateError) \<and>
   (\<not> closed s \<and> healthy e \<and> rows_of s (ID u) \<noteq> [] \<and> collides_other s u \<longrightarrow>
      (\<exists>m. Update e s u = (Some (Wrapf ''failed to update user : '' (DriverError m)), s) \<and>
           Contains m ''UNIQUE constraint failed'' \<and>
           classify (Wrapf ''failed to update user : '' (DriverError m)) = StorageError))"
proof (intro conjI impI)
  assume "\<not> closed s \<and> healthy e \<and> top_rowid s < MAX_ROWID \<and> collides s u"
  then show "Create e s u = (Some ErrDuplicateUser, u, s)"
    by (simp add: Create_healthy_dup)
next
  show "classify ErrDuplicateUser = DuplicateError" by simp
next
  assume h: "\<not> closed s \<and> healthy e \<and> rows_of s (ID u) \<noteq> [] \<and> collides_other s u"
  then obtain m where
    m: "sql_update s (Username u) (Email u) (ID u) = Inl (DriverError m)"
       "Contains m ''UNIQUE constraint failed''"
    using sql_update_unique [of s "ID u" "Username u" "Email u"]
    by (auto simp: collides_other_def)
  from h m(1) have "Update e s u = (Some (Wrapf ''failed to update user : '' (DriverError m)), s)"
    by (simp add: Update_def ExecUpdate_def conn_healthy)
  with m(2)
  show "\<exists>m. Update e s u = (Some (Wrapf ''failed to update user : '' (DriverError m)), s) \<and>
           Contains m ''UNIQUE constraint failed'' \<and>
           classify (Wrapf ''failed to update user : '' (DriverError m)) = StorageError"
    by auto
qed

theorem duplicate_on_Create_storage_error_on_Update_witness:
  "\<not> closed db_alice_bob \<and> healthy env0 \<and> top_rowid db_alice_bob < MAX_ROWID \<and>
   collides db_alice_bob alice2 \<and>
   Create env0 db_alice_bob alice2 = (Some ErrDuplicateUser, alice2, db_alice_bob) \<and>
   rows_of db_alice_bob (ID (alice2\<lparr>ID := 2\<rparr>)) \<noteq> [] \<and>
   collides_other db_alice_bob (alice2\<lparr>ID := 2\<rparr>) \<and>
   (\<exists>m. Update env0 db_alice_bob (alice2\<lparr>ID := 2\<rparr>) =
          (Some (Wrapf ''failed to update user : '' (DriverError m)), db_alice_bob) \<and>
        Contains m ''UNIQUE constraint failed'')"
proof -
  have h1: "\<not> closed db_alice_bob \<and> healthy env0 \<and> top_rowid db_alice_bob < MAX_ROWID \<and>
      collides db_alice_bob alice2"
    by (simp add: healthy_def collides_def example_defs)
  have h2: "\<not> closed db_alice_bob \<and> healthy env0 \<and>
      rows_of db_alice_bob (ID (alice2\<lparr>ID := 2\<rparr>)) \<noteq> [] \<and>
      collides_other db_alice_bob (alice2\<lparr>ID := 2\<rparr>)"
    by (simp add: healthy_def collides_other_def rows_of_def example_defs)
  from duplicate_on_Create_storage_error_on_Update [of db_alice_bob env0 alice2] h1
  have "Create env0 db_alice_bob alice2 = (Some ErrDuplicateUser, alice2, db_alice_bob)"
    by blast
  moreover
  from duplicate_on_Create_storage_error_on_Update [of db_alice_bob env0 "alice2\<lparr>ID := 2\<rparr>"] h2
  have "\<exists>m. Update env0 db_alice_bob (alice2\<lparr>ID := 2\<rparr>) =
          (Some (Wrapf ''failed to update user : '' (DriverError m)), db_alice_bob) \<and>
        Contains m ''UNIQUE constraint failed''"
    by blast
  ultimately show ?thesis using h1 h2 by blast
qed

text \<open>
  C3.  Whatever the environment, a \<open>Create\<close> that returns an error leaves the store
  exactly as it was.  A \<open>Create\<close> that returns no error has begun a transaction,
  inserted in it, read the new id from the result, and only then committed: the store
  after it is the transaction's view, and the id it wrote to the record is that id.
\<close>

theorem Create_commits_after_id_or_rolls_back:
  "(fst (Create e s u) \<noteq> None \<longrightarrow> snd (snd (Create e s u)) = s) \<and>
   (fst (Create e s u) = None \<longrightarrow>
      (\<exists>tx0 tx1 res.
         BeginTx e s = Inr tx0 \<and>
         ExecInsert e tx0 (Username u) (Email u) = Inr (tx1, res) \<and>
         LastInsertId e res = Inr (ID (fst (snd (Create e s u)))) \<and>
         Commit e tx1 = (None, tx1\<lparr>base := work tx1, finished := True\<rparr>) \<and>
         snd (snd (Create e s u)) = work tx1))"
  by (auto simp: Create_def BeginTx_def Rollback_def Commit_def Let_def
      dest: ExecInsert_keeps split: sum.splits option.splits if_splits prod.splits)

theorem Create_commits_after_id_or_rolls_back_witness:
  "fst (Create env0 db_alice alice2) \<noteq> None \<and>
   snd (snd (Create env0 db_alice alice2)) = db_alice \<and>
   fst (Create env_commit_fails NewDb alice) \<noteq> None \<and>
   snd (snd (Create env_commit_fails NewDb alice)) = NewDb \<and>
   fst (Create env0 NewDb alice) = None \<and>
   (\<exists>tx0 tx1 res.
      BeginTx env0 NewDb = Inr tx0 \<and>
      ExecInsert env0 tx0 (Username alice) (Email alice) = Inr (tx1, res) \<and>
      LastInsertId env0 res = Inr (ID (fst (snd (Create env0 NewDb alice)))) \<and>
      Commit env0 tx1 = (None, tx1\<lparr>base := work tx1, finished := True\<rparr>) \<and>
      snd (snd (Create env0 NewDb alice)) = work tx1)"
  using Create_commits_after_id_or_rolls_back [of env0 db_alice alice2]
    Create_commits_after_id_or_rolls_back [of env_commit_fails NewDb alice]
    Create_commits_after_id_or_rolls_back [of env0 NewDb alice]
  by (simp add: Create_db_alice_alice2 Create_commit_fails Create_NewDb_alice)

text \<open>
  C4.  Whatever the environment, \<open>GetById\<close>, \<open>Update\<close> and \<open>Delete\<close> return
  \<open>ErrUserNotFound\<close> only when no row has the id; on an open store in a healthy
  environment they return it whenever no row has the id.  \<open>Update\<close> and \<open>Delete\<close>
  return it exactly when their one statement was executed and its result reports
  zero rows affected.
\<close>

theorem NotFound_iff_no_row:
  "(GetById e s i = Inl ErrUserNotFound \<longrightarrow> rows_of s i = []) \<and>
   (fst (Update e s u) = Some ErrUserNotFound \<longrightarrow> rows_of s (ID u) = []) \<and>
   (fst (Delete e s i) = Some ErrUserNotFound \<longrightarrow> rows_of s i = []) \<and>
   (\<not> closed s \<and> healthy e \<and> rows_of s i = [] \<longrightarrow>
      GetById e s i = Inl ErrUserNotFound \<and> fst (Delete e s i) = Some ErrUserNotFound) \<and>
   (\<not> closed s \<and> healthy e \<and> rows_of s (ID u) = [] \<longrightarrow>
      fst (Update e s u) = Some ErrUserNotFound) \<and>
   (fst (Update e s u) = Some ErrUserNotFound \<longleftrightarrow>
      (\<exists>s1 res. ExecUpdate e s (Username u) (Email u) (ID u) = Inr (s1, res) \<and>
         RowsAffected e res = Inr 0)) \<and>
   (fst (Delete e s i) = Some ErrUserNotFound \<longleftrightarrow>
      (\<exists>s1 res. ExecDelete e s i = Inr (s1, res) \<and> RowsAffected e res = Inr 0))"
proof (intro conjI impI)
  assume "GetById e s i = Inl ErrUserNotFound"
  then show "rows_of s i = []"
    by (auto simp: GetById_def QueryRowScan_def conn_def Scan_def rows_of_def
        split: sum.splits option.splits if_splits list.splits)
next
  assume "fst (Update e s u) = Some ErrUserNotFound"
  then show "rows_of s (ID u) = []"
    by (auto simp: Update_def ExecUpdate_def RowsAffected_def sql_update_def rows_of_def Let_def
        split: sum.splits option.splits if_splits)
next
  assume "fst (Delete e s i) = Some ErrUserNotFound"
  then show "rows_of s i = []"
    by (auto simp: Delete_def ExecDelete_def RowsAffected_def sql_delete_def rows_of_def
        split: sum.splits option.splits if_splits)
next
  assume "\<not> closed s \<and> healthy e \<and> rows_of s i = []"
  then show "GetById e s i = Inl ErrUserNotFound"
    by (simp add: GetById_healthy)
next
  assume "\<not> closed s \<and> healthy e \<and> rows_of s i = []"
  then show "fst (Delete e s i) = Some ErrUserNotFound"
    by (simp add: Delete_def ExecDelete_def conn_healthy sql_delete_def RowsAffected_def
        fault_healthy rows_of_def)
next
  assume "\<not> closed s \<and> healthy e \<and> rows_of s (ID u) = []"
  then show "fst (Update e s u) = Some ErrUserNotFound"
    by (simp add: Update_def ExecUpdate_def conn_healthy sql_update_absent RowsAffected_def
        fault_healthy)
next
  show "fst (Update e s u) = Some ErrUserNotFound \<longleftrightarrow>
      (\<exists>s1 res. ExecUpdate e s (Username u) (Email u) (ID u) = Inr (s1, res) \<and>
         RowsAffected e res = Inr 0)"
    by (auto simp: Update_def RowsAffected_def split: sum.splits option.splits)
next
  show "fst (Delete e s i) = Some ErrUserNotFound \<longleftrightarrow>
      (\<exists>s1 res. ExecDelete e s i = Inr (s1, res) \<and> RowsAffected e res = Inr 0)"
    by (auto simp: Delete_def RowsAffected_def split: sum.splits option.splits)
qed

theorem NotFound_iff_no_row_witness:
  "\<not> closed db_alice \<and> healthy env0 \<and> rows_of db_alice 999 = [] \<and>
   rows_of db_alice (ID (bob\<lparr>ID := 999\<rparr>)) = [] \<and>
   GetById env0 db_alice 999 = Inl ErrUserNotFound \<and>
   fst (Delete env0 db_alice 999) = Some ErrUserNotFound \<and>
   fst (Update env0 db_alice (bob\<lparr>ID := 999\<rparr>)) = Some ErrUserNotFound \<and>
   (\<exists>s1 res. ExecUpdate env0 db_alice (Username (bob\<lparr>ID := 999\<rparr>)) (Email (bob\<lparr>ID := 999\<rparr>))
        (ID (bob\<lparr>ID := 999\<rparr>)) = Inr (s1, res) \<and> RowsAffected env0 res = Inr 0) \<and>
   (\<exists>s1 res. ExecDelete env0 db_alice 999 = Inr (s1, res) \<and> RowsAffected env0 res = Inr 0)"
proof -
  have h: "\<not> closed db_alice \<and> healthy env0 \<and> rows_of db_alice 999 = []"
    "\<not> closed db_alice \<and> healthy env0 \<and> rows_of db_alice (ID (bob\<lparr>ID := 999\<rparr>)) = []"
    by (simp_all add: healthy_def rows_of_def example_defs)
  from NotFound_iff_no_row [of env0 db_alice 999 "bob\<lparr>ID := 999\<rparr>"] h
  show ?thesis by blast
qed

text \<open>
  C5.  Whatever the environment and the outcome, \<open>Update\<close> keeps the number and order
  of the rows, the handle's state and the sequence value; it keeps the \<open>ID\<close> and the
  \<open>CreatedAt\<close> of every row and keeps every row of another id as it is.  When it returns
  no error, a row of the id exists and every row of the id has the username and email
  of the record.  On an open store in a healthy environment it returns no error when a
  row of the id exists and no other row has the new username or email.  When no row
  has the id the store is as before, and on an open store in a healthy environment the
  result is \<open>ErrUserNotFound\<close>.
\<close>

theorem Update_overwrites_username_and_email_only:
  "length (users (snd (Update e s u))) = length (users s) \<and>
   closed (snd (Update e s u)) = closed s \<and>
   seq (snd (Update e s u)) = seq s \<and>
   (\<forall>k<length (users s).
      ID (users (snd (Update e s u)) ! k) = ID (users s ! k) \<and>
      CreatedAt (users (snd (Update e s u)) ! k) = CreatedAt (users s ! k) \<and>
      (ID (users s ! k) \<noteq> ID u \<longrightarrow> users (snd (Update e s u)) ! k = users s ! k)) \<and>
   (fst (Update e s u) = None \<longrightarrow>
      rows_of (snd (Update e s u)) (ID u) \<noteq> [] \<and>
      list_all (\<lambda>r. Username r = Username u \<and> Email r = Email u)
        (rows_of (snd (Update e s u)) (ID u))) \<and>
   (\<not> closed s \<and> healthy e \<and> rows_of s (ID u) \<noteq> [] \<and> \<not> collides_other s u \<longrightarrow>
      fst (Update e s u) = None) \<and>
   (rows_of s (ID u) = [] \<longrightarrow> snd (Update e s u) = s) \<and>
   (\<not> closed s \<and> healthy e \<and> rows_of s (ID u) = [] \<longrightarrow>
      Update e s u = (Some ErrUserNotFound, s))"
proof (intro conjI impI allI)
  show "length (users (snd (Update e s u))) = length (users s)"
    using Update_cases [of e s u] by auto
  show "closed (snd (Update e s u)) = closed s"
    using Update_cases [of e s u] by auto
  show "seq (snd (Update e s u)) = seq s"
    using Update_cases [of e s u] by auto
next
  fix k assume "k < length (users s)"
  then show "ID (users (snd (Update e s u)) ! k) = ID (users s ! k)"
    using Update_cases [of e s u] by auto
next
  fix k assume "k < length (users s)"
  then show "CreatedAt (users (snd (Update e s u)) ! k) = CreatedAt (users s ! k)"
    using Update_cases [of e s u] by auto
next
  fix k assume "k < length (users s)" "ID (users s ! k) \<noteq> ID u"
  then show "users (snd (Update e s u)) ! k = users s ! k"
    using Update_cases [of e s u] by (auto simp: overwrite_def)
next
  assume ok: "fst (Update e s u) = None"
  from Update_None [OF ok] show "rows_of (snd (Update e s u)) (ID u) \<noteq> []"
    by (simp add: rows_of_overwrite_nonempty)
  from Update_None [OF ok]
  have eq: "snd (Update e s u) =
      s\<lparr>users := map (overwrite (ID u) (Username u) (Email u)) (users s)\<rparr>" ..
  show "list_all (\<lambda>r. Username r = Username u \<and> Email r = Email u)
        (rows_of (snd (Update e s u)) (ID u))"
    unfolding eq list_all_iff by (blast dest: rows_of_overwritten)
next
  assume h: "\<not> closed s \<and> healthy e \<and> rows_of s (ID u) \<noteq> [] \<and> \<not> collides_other s u"
  then have nc: "\<not> list_ex (\<lambda>r. ID r \<noteq> ID u \<and> Username r = Username u) (users s)"
      "\<not> list_ex (\<lambda>r. ID r \<noteq> ID u \<and> Email r = Email u) (users s)"
    by (auto simp: collides_other_def list_ex_iff)
  from h have "rows_of s (ID u) \<noteq> []" by simp
  from sql_update_ok [OF this nc] h show "fst (Update e s u) = None"
    by (simp add: Update_def ExecUpdate_def conn_healthy RowsAffected_def fault_healthy)
next
  assume "rows_of s (ID u) = []"
  from sql_update_absent [OF this] show "snd (Update e s u) = s"
    by (simp add: Update_def ExecUpdate_def split: option.splits sum.splits)
next
  assume "\<not> closed s \<and> healthy e \<and> rows_of s (ID u) = []"
  then show "Update e s u = (Some ErrUserNotFound, s)"
    by (simp add: Update_def ExecUpdate_def conn_healthy sql_update_absent RowsAffected_def
        fault_healthy)
qed

theorem Update_overwrites_username_and_email_only_witness:
  "\<not> closed db_alice_bob \<and> healthy env0 \<and> rows_of db_alice_bob (ID robert) \<noteq> [] \<and>
   \<not> collides_other db_alice_bob robert \<and>
   fst (Update env0 db_alice_bob robert) = None \<and>
   rows_of (snd (Update env0 db_alice_bob robert)) (ID robert) =
     [\<lparr>ID = 2, Username = ''robert'', Email = ''rob@x.com'', CreatedAt = 63835596800\<rparr>] \<and>
   users (snd (Update env0 db_alice_bob robert)) ! 0 = users db_alice_bob ! 0 \<and>
   rows_of db_alice (ID (bob\<lparr>ID := 999\<rparr>)) = [] \<and>
   Update env0 db_alice (bob\<lparr>ID := 999\<rparr>) = (Some ErrUserNotFound, db_alice)"
proof -
  have h1: "\<not> closed db_alice_bob \<and> healthy env0 \<and> rows_of db_alice_bob (ID robert) \<noteq> [] \<and>
      \<not> collides_other db_alice_bob robert"
    by (simp add: healthy_def rows_of_def collides_other_def example_defs robert_def)
  have h2: "\<not> closed db_alice \<and> healthy env0 \<and> rows_of db_alice (ID (bob\<lparr>ID := 999\<rparr>)) = []"
    by (simp add: healthy_def rows_of_def example_defs)
  have k: "0 < length (users db_alice_bob)" "ID (users db_alice_bob ! 0) \<noteq> ID robert"
    by (simp_all add: example_defs robert_def)
  from Update_overwrites_username_and_email_only [of env0 db_alice_bob robert] h1 k
  have a: "fst (Update env0 db_alice_bob robert) = None"
      "users (snd (Update env0 db_alice_bob robert)) ! 0 = users db_alice_bob ! 0"
    by blast+
  have r: "rows_of (snd (Update env0 db_alice_bob robert)) (ID robert) =
     [\<lparr>ID = 2, Username = ''robert'', Email = ''rob@x.com'', CreatedAt = 63835596800\<rparr>]"
    unfolding Update_robert by (simp add: rows_of_def example_defs robert_def)
  from Update_overwrites_username_and_email_only [of env0 db_alice "bob\<lparr>ID := 999\<rparr>"] h2
  have b: "Update env0 db_alice (bob\<lparr>ID := 999\<rparr>) = (Some ErrUserNotFound, db_alice)"
    by blast
  from h1 h2 a r b show ?thesis by blast
qed

text \<open>
  C6.  Let \<open>Create\<close> succeed, writing the id \<open>ID u1\<close> and leaving the store \<open>s1\<close>.  After any
  history of calls from \<open>s1\<close> in which no update and no delete is addressed to that id,
  on a store still open and in a healthy environment, \<open>GetById\<close> of that id returns the
  row that \<open>Create\<close> stored: that id, the username and email given to \<open>Create\<close>, and the
  engine's time at the insert.
\<close>

theorem GetById_returns_created_record:
  assumes "Create e s u = (None, u1, s1)"
    and "\<not> list_ex (writes_row (ID u1)) cs"
    and "\<not> closed (fst (run s1 cs))" and "healthy e2"
  shows "GetById e2 (fst (run s1 cs)) (ID u1) = Inr (last (users s1)) \<and>
     last (users s1) =
       \<lparr>ID = ID u1, Username = Username u, Email = Email u, CreatedAt = CURRENT_TIMESTAMP e\<rparr>"
proof -
  note c = Create_None_row [OF assms(1)]
  from c have rows: "rows_of s1 (ID u1) = [new_row e s (Username u) (Email u)]" by blast
  then have ne: "rows_of s1 (ID u1) \<noteq> []" by simp
  from rows_of_run [OF ne assms(2)] rows
  have "rows_of (fst (run s1 cs)) (ID u1) = [new_row e s (Username u) (Email u)]" by simp
  with GetById_healthy [OF assms(3,4), of "ID u1"]
  have "GetById e2 (fst (run s1 cs)) (ID u1) = Inr (new_row e s (Username u) (Email u))"
    by simp
  moreover have "last (users s1) = new_row e s (Username u) (Email u)" using c by simp
  moreover have "new_row e s (Username u) (Email u) =
      \<lparr>ID = ID u1, Username = Username u, Email = Email u, CreatedAt = CURRENT_TIMESTAMP e\<rparr>"
    using c by (simp add: new_row_def)
  ultimately show ?thesis by simp
qed

theorem GetById_returns_created_record_witness:
  "Create env0 NewDb alice = (None, alice\<lparr>ID := 1\<rparr>, db_alice) \<and>
   \<not> list_ex (writes_row (ID (alice\<lparr>ID := 1\<rparr>))) history_others \<and>
   \<not> closed (fst (run db_alice history_others)) \<and> healthy env0 \<and>
   GetById env0 (fst (run db_alice history_others)) (ID (alice\<lparr>ID := 1\<rparr>)) =
     Inr (last (users db_alice)) \<and>
   last (users db_alice) = alice_row"
proof -
  have h: "\<not> list_ex (writes_row (ID (alice\<lparr>ID := 1\<rparr>))) history_others"
    "\<not> closed (fst (run db_alice history_others))" "healthy env0"
    unfolding run_history_others
    by (simp_all add: healthy_def history_others_def robert_def db_alice_def env0_def)
  have l: "last (users db_alice) = alice_row" by (simp add: db_alice_def)
  from GetById_returns_created_record [OF Create_NewDb_alice h] h l Create_NewDb_alice
  show ?thesis by simp
qed

text \<open>
  C7.  As the claim states it, no reachable store would hold an empty username or email.
  One does: \<open>Create\<close> accepts the record \<open>nameless\<close>, whose username and email are empty
  strings (the columns are \<open>NOT NULL\<close>, and an empty string is not \<open>NULL\<close>), so the store it
  leaves is reachable and holds a row with both empty.
\<close>

theorem empty_username_reachable_counterexample:
  "reachable db_nameless \<and> fst (Create env0 NewDb nameless) = None \<and>
   \<not> no_empty_text db_nameless"
proof -
  have "reachable (apply_op (OpCreate env0 nameless) NewDb)"
    by (rule reachable_step [OF reachable_NewDb])
  then have "reachable db_nameless" by (simp add: db_nameless_def)
  moreover have "fst (Create env0 NewDb nameless) = None"
    by (simp add: store_defs engine_defs example_defs)
  moreover have "\<not> no_empty_text db_nameless"
    unfolding db_nameless_eq by (simp add: no_empty_text_def)
  ultimately show ?thesis by simp
qed

text \<open>
  C7, amended.  In every reachable store the ids, the usernames and the emails are each
  unique among the stored rows, and every call (\<open>Create\<close>, \<open>Update\<close>, \<open>Delete\<close>, \<open>Close\<close>,
  the reads) keeps them so, whatever the environment.  The store does not refuse empty
  strings: a call keeps usernames and emails non-empty when the record it is given has
  both non-empty, and so does a history of such calls from a new store.
\<close>

theorem unique_columns_invariant:
  "(reachable s \<longrightarrow> unique_columns s) \<and>
   (unique_columns s \<longrightarrow> unique_columns (apply_op c s)) \<and>
   (no_empty_text s \<and> \<not> stores_empty c \<longrightarrow> no_empty_text (apply_op c s)) \<and>
   (\<not> list_ex stores_empty cs \<longrightarrow> no_empty_text (fst (run NewDb cs)))"
proof (intro conjI impI)
  assume "reachable s"
  then show "unique_columns s" by (rule reachable_unique_columns)
next
  assume "unique_columns s"
  then show "unique_columns (apply_op c s)" by (rule unique_columns_apply_op)
next
  assume "no_empty_text s \<and> \<not> stores_empty c"
  then show "no_empty_text (apply_op c s)" by (simp add: no_empty_text_apply_op)
next
  assume "\<not> list_ex stores_empty cs"
  moreover have "no_empty_text NewDb" by (simp add: no_empty_text_def NewDb_def)
  ultimately show "no_empty_text (fst (run NewDb cs))" by (simp add: no_empty_text_run)
qed

theorem unique_columns_invariant_witness:
  "reachable db_alice_bob \<and> unique_columns db_alice_bob \<and>
   unique_columns (apply_op (OpUpdate env0 robert) db_alice_bob) \<and>
   no_empty_text db_alice_bob \<and> \<not> stores_empty (OpUpdate env0 robert) \<and>
   no_empty_text (apply_op (OpUpdate env0 robert) db_alice_bob) \<and>
   \<not> list_ex stores_empty history_creates \<and>
   no_empty_text (fst (run NewDb history_creates))"
proof -
  have h: "no_empty_text db_alice_bob \<and> \<not> stores_empty (OpUpdate env0 robert)"
    "\<not> list_ex stores_empty history_creates"
    by (simp_all add: no_empty_text_def history_creates_def example_defs robert_def)
  from unique_columns_invariant [of db_alice_bob "OpUpdate env0 robert" history_creates]
    reachable_db_alice_bob h
  show ?thesis by blast
qed

text \<open>
  C8.  On an open store with no rows, in a healthy environment, \<open>ListAll\<close> returns the
  empty list and no error.  After a history of calls from a new store with no delete
  among them, on a store still open and in a healthy environment, \<open>ListAll\<close> returns as
  many records as creates have succeeded in the history, and they are the stored rows.
\<close>

theorem ListAll_counts_created_records:
  "(\<not> closed s0 \<and> healthy e \<and> users s0 = [] \<longrightarrow> ListAll e s0 = Inr []) \<and>
   (healthy e \<longrightarrow> ListAll e NewDb = Inr []) \<and>
   (run NewDb cs = (s, ids) \<and> \<not> list_ex is_delete cs \<and> \<not> closed s \<and> healthy e \<longrightarrow>
      (\<exists>us. ListAll e s = Inr us \<and> length us = length ids \<and> set us = set (users s)))"
proof (intro conjI impI)
  assume "\<not> closed s0 \<and> healthy e \<and> users s0 = []"
  then show "ListAll e s0 = Inr []" by (simp add: ListAll_healthy)
next
  assume "healthy e"
  then show "ListAll e NewDb = Inr []" by (simp add: ListAll_healthy NewDb_def)
next
  assume h: "run NewDb cs = (s, ids) \<and> \<not> list_ex is_delete cs \<and> \<not> closed s \<and> healthy e"
  then have "length (users s) = length (users NewDb) + length ids"
    by (intro length_users_run [of cs]) simp_all
  then have "length (users s) = length ids" by (simp add: NewDb_def)
  moreover from h have "ListAll e s = Inr (users s)" by (simp add: ListAll_healthy)
  ultimately show "\<exists>us. ListAll e s = Inr us \<and> length us = length ids \<and> set us = set (users s)"
    by simp
qed

theorem ListAll_counts_created_records_witness:
  "\<not> closed NewDb \<and> healthy env0 \<and> users NewDb = [] \<and> ListAll env0 NewDb = Inr [] \<and>
   run NewDb history_creates = (db_alice_bob, [1, 2]) \<and>
   \<not> list_ex is_delete history_creates \<and> \<not> closed db_alice_bob \<and>
   (\<exists>us. ListAll env0 db_alice_bob = Inr us \<and> length us = length [1, 2 :: int] \<and>
      set us = set (users db_alice_bob))"
proof -
  have h1: "\<not> closed NewDb \<and> healthy env0 \<and> users NewDb = []"
    by (simp add: healthy_def NewDb_def env0_def)
  have h2: "run NewDb history_creates = (db_alice_bob, [1, 2]) \<and>
      \<not> list_ex is_delete history_creates \<and> \<not> closed db_alice_bob \<and> healthy env0"
    by (simp add: run_history_creates healthy_def env0_def db_alice_bob_def)
      (simp add: history_creates_def)
  from ListAll_counts_created_records [of NewDb env0 history_creates db_alice_bob "[1, 2]"] h1 h2
  show ?thesis by blast
qed

text \<open>
  C9.  \<open>Close\<close> leaves the store closed.  On a closed store each of the five operations
  returns an error of the storage class and leaves the store as it is (so it stays
  closed for the operations after it), and \<open>Create\<close> does not touch the record.
\<close>

theorem operations_fail_after_Close:
  "closed (snd (Close e0 s0)) \<and>
   (closed s \<longrightarrow>
      map_option classify (fst (Create e s u)) = Some StorageError \<and>
      snd (Create e s u) = (u, s) \<and>
      map_option classify (err_of (GetById e s i)) = Some StorageError \<and>
      map_option classify (err_of (ListAll e s)) = Some StorageError \<and>
      map_option classify (fst (Update e s u)) = Some StorageError \<and>
      snd (Update e s u) = s \<and>
      map_option classify (fst (Delete e s i)) = Some StorageError \<and>
      snd (Delete e s i) = s)"
  by (simp add: Close_def Create_def GetById_def ListAll_def Update_def Delete_def
      BeginTx_def QueryRowScan_def QueryContext_def ExecUpdate_def ExecDelete_def conn_closed
      ErrDBClosed_def err_of_def)

theorem operations_fail_after_Close_witness:
  "closed (snd (Close env0 db_alice)) \<and>
   map_option classify (fst (Create env0 (snd (Close env0 db_alice)) bob)) = Some StorageError \<and>
   snd (Create env0 (snd (Close env0 db_alice)) bob) = (bob, snd (Close env0 db_alice)) \<and>
   map_option classify (err_of (GetById env0 (snd (Close env0 db_alice)) 1)) = Some StorageError \<and>
   map_option classify (err_of (ListAll env0 (snd (Close env0 db_alice)))) = Some StorageError \<and>
   map_option classify (fst (Update env0 (snd (Close env0 db_alice)) bob)) = Some StorageError \<and>
   snd (Update env0 (snd (Close env0 db_alice)) bob) = snd (Close env0 db_alice) \<and>
   map_option classify (fst (Delete env0 (snd (Close env0 db_alice)) 1)) = Some StorageError \<and>
   snd (Delete env0 (snd (Close env0 db_alice)) 1) = snd (Close env0 db_alice)"
proof -
  have c: "closed (snd (Close env0 db_alice))"
    by (simp add: Close_def db_alice_def)
  from operations_fail_after_Close [of env0 db_alice "snd (Close env0 db_alice)" env0 bob 1] c
  show ?thesis by blast
qed

text \<open>
  C10.  Whatever the environment, when \<open>Create\<close> returns \<open>ErrDuplicateUser\<close> the record
  it hands back is the record it was given, \<open>ID\<close> included.
\<close>

theorem duplicate_leaves_record_unchanged:
  "fst (Create e s u) = Some ErrDuplicateUser \<longrightarrow>
     fst (snd (Create e s u)) = u \<and> ID (fst (snd (Create e s u))) = ID u"
  by (auto simp: Create_def BeginTx_def Rollback_def Commit_def Let_def
      split: sum.splits option.splits if_splits prod.splits)

theorem duplicate_leaves_record_unchanged_witness:
  "fst (Create env0 db_alice alice2) = Some ErrDuplicateUser \<and>
   fst (snd (Create env0 db_alice alice2)) = alice2 \<and>
   ID (fst (snd (Create env0 db_alice alice2))) = ID alice2"
  using duplicate_leaves_record_unchanged [of env0 db_alice alice2]
  by (simp add: Create_db_alice_alice2)

end
